theory Spec2Isabelle
  imports Main
begin

section \<open>Errors and contexts\<close>

text \<open>
  A Go \<open>error\<close> value is \<open>error option\<close>: \<open>None\<close> is \<open>nil\<close>. \<open>Canceled\<close> and
  \<open>DeadlineExceeded\<close> are the two sentinel errors of package \<open>context\<close>; \<open>Wrapped m e\<close>
  is an error whose \<open>Unwrap\<close> gives \<open>e\<close>.
\<close>

datatype error = Canceled | DeadlineExceeded | Failure string | Wrapped string error

text \<open>\<open>errors.Is(err, target)\<close>: \<open>err\<close> or an error of its \<open>Unwrap\<close> chain equals \<open>target\<close>.\<close>

fun errors_Is :: "error \<Rightarrow> error \<Rightarrow> bool" where
  "errors_Is (Wrapped m e) t = (Wrapped m e = t \<or> errors_Is e t)"
| "errors_Is e t = (e = t)"

text \<open>
  A \<open>context.Context\<close> is modelled by what its \<open>Err()\<close> returns: \<open>None\<close> while it is live
  (\<open>Done()\<close> blocks), \<open>Some e\<close> once it is done. A context is done once and keeps its
  first reason: cancelling a context that is done changes nothing.
\<close>

type_synonym Context = "error option"

definition cancel_ctx :: "error \<Rightarrow> Context \<Rightarrow> Context" where
  "cancel_ctx e c = (case c of None \<Rightarrow> Some e | Some e' \<Rightarrow> Some e')"

section \<open>The handles the App consumes\<close>

datatype signal = SIGHUP | SIGINT | SIGQUIT | SIGTERM | SIGUSR1 | SIGUSR2

datatype logger = DefaultLogger | CustomLogger string

datatype registry = Registry string

text \<open>
  A \<open>transport.Server\<close>. \<open>Endpoint\<close> is what the handle's \<open>Endpoint()\<close> call returns;
  what \<open>Start()\<close> and \<open>Stop()\<close> return, and when, is decided by the environment
  (see \<open>event\<close> below).
\<close>

record server =
  srv_name :: string
  Endpoint :: "error + string"

record ServiceInstance =
  ID :: string
  Name :: string
  Version :: string
  Metadata :: "string \<rightharpoonup> string"
  Endpoints :: "string list"

section \<open>Options\<close>

text \<open>
  Modelled from the spec: the declaration of the \<open>options\<close> struct and the functions that
  build an \<open>Option\<close> are not in \<open>app.go\<close>. The fields are those \<open>app.go\<close> reads and writes;
  the options are the ones the spec lists as recognized (identity override, display name,
  version, metadata, explicit endpoint list, server list, registry handle, logger handle,
  signal set, base cancellation-parent context), each setting its field.
  The parent context is never \<open>nil\<close> (the contract of package \<open>context\<close>), and \<open>o_ctx\<close>
  is its \<open>Err()\<close> when \<open>New\<close> runs.
\<close>

record options =
  o_id :: string
  o_name :: string
  o_version :: string
  o_metadata :: "string \<rightharpoonup> string"
  o_endpoints :: "string list"
  o_ctx :: Context
  o_sigs :: "signal list"
  o_logger :: logger
  o_registry :: "registry option"
  o_servers :: "server list"

datatype app_option =
    Opt_id string
  | Opt_name string
  | Opt_version string
  | Opt_metadata "string \<rightharpoonup> string"
  | Opt_endpoints "string list"
  | Opt_ctx Context
  | Opt_sigs "signal list"
  | Opt_logger logger
  | Opt_registry "registry option"
  | Opt_servers "server list"

fun apply_option :: "options \<Rightarrow> app_option \<Rightarrow> options" where
  "apply_option o' (Opt_id x) = o'\<lparr>o_id := x\<rparr>"
| "apply_option o' (Opt_name x) = o'\<lparr>o_name := x\<rparr>"
| "apply_option o' (Opt_version x) = o'\<lparr>o_version := x\<rparr>"
| "apply_option o' (Opt_metadata x) = o'\<lparr>o_metadata := x\<rparr>"
| "apply_option o' (Opt_endpoints x) = o'\<lparr>o_endpoints := x\<rparr>"
| "apply_option o' (Opt_ctx x) = o'\<lparr>o_ctx := x\<rparr>"
| "apply_option o' (Opt_sigs x) = o'\<lparr>o_sigs := x\<rparr>"
| "apply_option o' (Opt_logger x) = o'\<lparr>o_logger := x\<rparr>"
| "apply_option o' (Opt_registry x) = o'\<lparr>o_registry := x\<rparr>"
| "apply_option o' (Opt_servers x) = o'\<lparr>o_servers := x\<rparr>"

fun is_Opt_id :: "app_option \<Rightarrow> bool" where
  "is_Opt_id (Opt_id x) = True"
| "is_Opt_id x = False"

fun is_Opt_sigs :: "app_option \<Rightarrow> bool" where
  "is_Opt_sigs (Opt_sigs x) = True"
| "is_Opt_sigs x = False"

section \<open>serviceInstance and New\<close>

text \<open>
  The loop of \<open>serviceInstance\<close> (lines 121-125): every server is asked for its endpoint,
  in order; an endpoint is appended when the call returns no error. The second component
  records the handles whose \<open>Endpoint()\<close> was called.
\<close>

fun query_servers :: "server list \<Rightarrow> string list \<times> server list \<Rightarrow> string list \<times> server list" where
  "query_servers [] acc = acc"
| "query_servers (srv # rest) (eps, asked) =
     query_servers rest
       (case Endpoint srv of Inr e \<Rightarrow> eps @ [e] | Inl err \<Rightarrow> eps, asked @ [srv])"

definition serviceInstance_calls :: "options \<Rightarrow> ServiceInstance \<times> server list" where
  "serviceInstance_calls o' =
     (let (eps, asked) =
            (if length (o_endpoints o') = 0
             then query_servers (o_servers o') (o_endpoints o', [])
             else (o_endpoints o', []))
      in (\<lparr>ID = o_id o', Name = o_name o', Version = o_version o',
           Metadata = o_metadata o', Endpoints = eps\<rparr>, asked))"

definition serviceInstance :: "options \<Rightarrow> ServiceInstance" where
  "serviceInstance o' = fst (serviceInstance_calls o')"

text \<open>
  The App. \<open>ctx\<close> is \<open>a.ctx\<close> (its \<open>Err()\<close>), \<open>cancel\<close> says that \<open>a.cancel\<close> is not \<open>nil\<close>,
  \<open>inst\<close> is \<open>a.instance\<close>.
\<close>

record app =
  opts :: options
  ctx :: Context
  cancel :: bool
  inst :: ServiceInstance
  log_helper :: "string \<times> logger"

text \<open>
  \<open>New\<close>; \<open>uuid\<close> is what \<open>uuid.NewUUID()\<close> returns (the identifier as a string, or its
  error). \<open>context.WithCancel\<close> of a parent that is done gives a context that is done
  for the same reason.
\<close>

definition default_options :: options where
  "default_options =
     \<lparr>o_id = [], o_name = [], o_version = [], o_metadata = Map.empty, o_endpoints = [],
      o_ctx = None, o_sigs = [SIGTERM, SIGQUIT, SIGINT], o_logger = DefaultLogger,
      o_registry = None, o_servers = []\<rparr>"

definition New_options :: "error + string \<Rightarrow> app_option list \<Rightarrow> options" where
  "New_options uuid os =
     foldl apply_option
       (case uuid of Inr i \<Rightarrow> default_options\<lparr>o_id := i\<rparr> | Inl err \<Rightarrow> default_options) os"

definition New :: "error + string \<Rightarrow> app_option list \<Rightarrow> app" where
  "New uuid os =
     (let options = New_options uuid os
      in \<lparr>opts = options, ctx = o_ctx options, cancel = True,
          inst = serviceInstance options, log_helper = (''app'', o_logger options)\<rparr>)"

section \<open>Stop\<close>

text \<open>
  \<open>Stop\<close> (lines 107-117). \<open>d\<close> is what the registry's \<open>Deregister\<close> returns when it is
  called. The result is the returned error and the App afterwards.
\<close>

definition Stop :: "app \<Rightarrow> error option \<Rightarrow> error option \<times> app" where
  "Stop a d =
     (case (if o_registry (opts a) \<noteq> None then d else None) of
        Some err \<Rightarrow> (Some err, a)
      | None \<Rightarrow>
          (None, if cancel a then a\<lparr>ctx := cancel_ctx Canceled (ctx a)\<rparr> else a))"

section \<open>Run\<close>

text \<open>
  \<open>Run\<close> starts goroutines, so it is modelled as a transition system: a state of the
  running App and one transition for each step a goroutine or the environment can take.

  A task of the \<open>errgroup\<close>: \<open>Blocked\<close> waits (on \<open>ctx.Done()\<close>, or in the watcher's
  \<open>select\<close>), \<open>Running\<close> is inside the server's \<open>Start\<close> or \<open>Stop\<close>, \<open>Finished r\<close> has
  returned \<open>r\<close> to the group.
\<close>

datatype task = Blocked | Running | Finished "error option"

fun is_Finished :: "task \<Rightarrow> bool" where
  "is_Finished (Finished r) = True"
| "is_Finished t = False"

text \<open>
  Where the goroutine that called \<open>Run\<close> is: inside \<open>Register\<close> (line 84), before line 88,
  inside \<open>g.Wait()\<close> (line 100), returned from line 85, or returned from lines 101/103.
\<close>

datatype pc = PcRegister | PcNotify | PcWait | RetRegister error | RetWait "error option"

record run_state =
  app :: app
  pc :: pc
  gctx :: Context
  gerr :: "error option"
  stop_tasks :: "task list"
  start_tasks :: "task list"
  watcher :: "task option"
  notified :: "signal list option"
  sigchan :: "signal option"
  stop_calls :: "nat list"
  app_stops :: nat
  log_out :: "(string \<times> string) list list"

text \<open>
  The loop of lines 73-82: for each server a stop-task, blocked on \<open>ctx.Done()\<close>, and a
  start-task, inside \<open>srv.Start()\<close>.
\<close>

fun spawn_servers :: "server list \<Rightarrow> task list \<times> task list \<Rightarrow> task list \<times> task list" where
  "spawn_servers [] acc = acc"
| "spawn_servers (srv # rest) (stops, starts) =
     spawn_servers rest (stops @ [Blocked], starts @ [Running])"

text \<open>
  Lines 67-83: the log line, \<open>errgroup.WithContext(a.ctx)\<close> (the group's context is
  derived from \<open>a.ctx\<close>), the tasks of the servers, and the test for a registry.
\<close>

definition Run_spawn :: "app \<Rightarrow> run_state" where
  "Run_spawn a =
     (let (stops, starts) = spawn_servers (o_servers (opts a)) ([], [])
      in \<lparr>app = a,
          pc = (if o_registry (opts a) \<noteq> None then PcRegister else PcNotify),
          gctx = ctx a, gerr = None,
          stop_tasks = stops, start_tasks = starts,
          watcher = None, notified = None, sigchan = None, stop_calls = [],
          app_stops = 0,
          log_out = [[(''service_id'', o_id (opts a)), (''service_name'', o_name (opts a)),
                      (''version'', o_version (opts a))]]\<rparr>)"

text \<open>Lines 84-86: \<open>Register\<close> has returned \<open>r\<close>.\<close>

definition Run_register :: "run_state \<Rightarrow> error option \<Rightarrow> run_state" where
  "Run_register s r =
     (case r of Some err \<Rightarrow> s\<lparr>pc := RetRegister err\<rparr> | None \<Rightarrow> s\<lparr>pc := PcNotify\<rparr>)"

text \<open>
  Lines 88-99: the channel with room for one signal, \<open>signal.Notify\<close>, and the watcher
  task, which starts in its \<open>select\<close>.
\<close>

definition Run_notify :: "run_state \<Rightarrow> run_state" where
  "Run_notify s =
     s\<lparr>sigchan := None, notified := Some (o_sigs (opts (app s))),
       watcher := Some Blocked, pc := PcWait\<rparr>"

text \<open>
  What the wrapper of \<open>g.Go\<close> does when a task returns \<open>r\<close>: the first error that is not
  \<open>nil\<close> is kept (\<open>errOnce\<close>) and the group's context is cancelled.
\<close>

definition group_done :: "error option \<Rightarrow> run_state \<Rightarrow> run_state" where
  "group_done r s =
     (case r of
        None \<Rightarrow> s
      | Some err \<Rightarrow>
          if gerr s = None
          then s\<lparr>gerr := Some err, gctx := cancel_ctx Canceled (gctx s)\<rparr>
          else s)"

text \<open>
  Lines 100-103, once every task has returned: \<open>g.Wait()\<close> cancels the group's Context
  and returns the kept error; \<open>Run\<close> filters it.
\<close>

definition Run_wait :: "run_state \<Rightarrow> run_state" where
  "Run_wait s =
     s\<lparr>gctx := cancel_ctx Canceled (gctx s),
       pc := RetWait (case gerr s of
                        None \<Rightarrow> None
                      | Some err \<Rightarrow> if \<not> errors_Is err Canceled then Some err else None)\<rparr>"

definition all_finished :: "run_state \<Rightarrow> bool" where
  "all_finished s =
     (list_all is_Finished (stop_tasks s) \<and> list_all is_Finished (start_tasks s) \<and>
      (case watcher s of Some t \<Rightarrow> is_Finished t | None \<Rightarrow> True))"

text \<open>
  The group's context is a child of \<open>a.ctx\<close>: when \<open>a.ctx\<close> is done and the child is
  not, the child is done for the same reason.
\<close>

definition propagate :: "run_state \<Rightarrow> run_state" where
  "propagate s = (case gctx s of None \<Rightarrow> s\<lparr>gctx := ctx (app s)\<rparr> | Some e \<Rightarrow> s)"

text \<open>
  A call of \<open>a.Stop()\<close> while \<open>Run\<close> is active; \<open>app_stops\<close> counts these calls.
\<close>

definition run_Stop :: "run_state \<Rightarrow> error option \<Rightarrow> error option \<times> run_state" where
  "run_Stop s d =
     (let (r, a') = Stop (app s) d
      in (r, propagate (s\<lparr>app := a', app_stops := Suc (app_stops s)\<rparr>)))"

text \<open>
  \<open>signal.Notify(c, sigs...)\<close>: with no signal given, every incoming signal is relayed.
\<close>

definition subscribed :: "signal list \<Rightarrow> signal \<Rightarrow> bool" where
  "subscribed sgs sg = (sgs = [] \<or> sg \<in> set sgs)"

text \<open>
  The transitions.
  \<^item> \<open>RegisterRet r\<close>: the registry's \<open>Register\<close> returns \<open>r\<close> to \<open>Run\<close>.
  \<^item> \<open>Notify\<close>: \<open>Run\<close> executes lines 88-99.
  \<^item> \<open>Wait\<close>: every task has returned and \<open>g.Wait()\<close> returns.
  \<^item> \<open>StopCall i\<close>: the stop-task of server \<open>i\<close> sees the group's context done and calls
    \<open>srv.Stop()\<close>; \<open>StopRet i r\<close>: that call returns \<open>r\<close>.
  \<^item> \<open>StartRet i r\<close>: \<open>srv.Start()\<close> of server \<open>i\<close> returns \<open>r\<close>.
  \<^item> \<open>SignalArrive sg\<close>: the process receives \<open>sg\<close>; it is put in the channel when it is
    subscribed and the channel has room, and dropped otherwise.
  \<^item> \<open>WatcherRecv d\<close>: the watcher's \<open>select\<close> takes the signal of the channel and calls
    \<open>a.Stop()\<close>, whose \<open>Deregister\<close> returns \<open>d\<close>; the result of \<open>Stop\<close> is dropped.
  \<^item> \<open>WatcherDone\<close>: the watcher's \<open>select\<close> takes \<open>ctx.Done()\<close> and returns \<open>ctx.Err()\<close>.
  \<^item> \<open>CallStop d\<close>: another goroutine calls \<open>a.Stop()\<close>.
  \<^item> \<open>ParentDone e\<close>: the context given to \<open>New\<close> is done for reason \<open>e\<close>.
  A transition that is not enabled leaves the state as it is.
\<close>

datatype event =
    RegisterRet "error option"
  | Notify
  | Wait
  | StopCall nat
  | StopRet nat "error option"
  | StartRet nat "error option"
  | SignalArrive signal
  | WatcherRecv "error option"
  | WatcherDone
  | CallStop "error option"
  | ParentDone error

fun step :: "run_state \<Rightarrow> event \<Rightarrow> run_state" where
  "step s (RegisterRet r) = (if pc s = PcRegister then Run_register s r else s)"
| "step s Notify = (if pc s = PcNotify then Run_notify s else s)"
| "step s Wait = (if pc s = PcWait \<and> all_finished s then Run_wait s else s)"
| "step s (StopCall i) =
     (if i < length (stop_tasks s) \<and> stop_tasks s ! i = Blocked \<and> gctx s \<noteq> None
      then s\<lparr>stop_tasks := (stop_tasks s)[i := Running], stop_calls := stop_calls s @ [i]\<rparr>
      else s)"
| "step s (StopRet i r) =
     (if i < length (stop_tasks s) \<and> stop_tasks s ! i = Running
      then group_done r (s\<lparr>stop_tasks := (stop_tasks s)[i := Finished r]\<rparr>)
      else s)"
| "step s (StartRet i r) =
     (if i < length (start_tasks s) \<and> start_tasks s ! i = Running
      then group_done r (s\<lparr>start_tasks := (start_tasks s)[i := Finished r]\<rparr>)
      else s)"
| "step s (SignalArrive sg) =
     (case notified s of
        Some sgs \<Rightarrow> if subscribed sgs sg \<and> sigchan s = None then s\<lparr>sigchan := Some sg\<rparr> else s
      | None \<Rightarrow> s)"
| "step s (WatcherRecv d) =
     (if watcher s = Some Blocked \<and> sigchan s \<noteq> None
      then snd (run_Stop (s\<lparr>sigchan := None\<rparr>) d)
      else s)"
| "step s WatcherDone =
     (if watcher s = Some Blocked \<and> gctx s \<noteq> None
      then group_done (gctx s) (s\<lparr>watcher := Some (Finished (gctx s))\<rparr>)
      else s)"
| "step s (CallStop d) = snd (run_Stop s d)"
| "step s (ParentDone e) =
     propagate (s\<lparr>app := (app s)\<lparr>ctx := cancel_ctx e (ctx (app s))\<rparr>\<rparr>)"

definition exec :: "run_state \<Rightarrow> event list \<Rightarrow> run_state" where
  "exec s evs = foldl step s evs"

text \<open>What \<open>Run\<close> has returned, if it has.\<close>

definition returned :: "run_state \<Rightarrow> error option option" where
  "returned s =
     (case pc s of RetRegister err \<Rightarrow> Some (Some err) | RetWait r \<Rightarrow> Some r | _ \<Rightarrow> None)"

section \<open>Definitions used to state the properties\<close>

text \<open>
  The endpoints the spec describes: the results of the handles whose \<open>Endpoint()\<close>
  succeeded, in the order of the server list.
\<close>

definition successful_endpoints :: "server list \<Rightarrow> string list" where
  "successful_endpoints ss =
     concat (map (\<lambda>srv. case Endpoint srv of Inr e \<Rightarrow> [e] | Inl err \<Rightarrow> []) ss)"

text \<open>
  \<open>Stop\<close> called once for each element of \<open>ds\<close>, the results of the successive
  \<open>Deregister\<close> calls; the results of the calls, and the App after the last one.
\<close>

fun Stop_repeat :: "app \<Rightarrow> error option list \<Rightarrow> error option list \<times> app" where
  "Stop_repeat a [] = ([], a)"
| "Stop_repeat a (d # ds) =
     (let (r, a') = Stop a d; (rs, a'') = Stop_repeat a' ds in (r # rs, a''))"

text \<open>
  Example Apps: two servers (one without an endpoint) and a registry; no server and a
  parent context that is done; two servers and no registry.
\<close>

definition os0 :: "app_option list" where
  "os0 = [Opt_name ''svc'', Opt_registry (Some (Registry ''etcd'')),
     Opt_servers [\<lparr>srv_name = ''http'', Endpoint = Inr ''http://h:80''\<rparr>,
                  \<lparr>srv_name = ''grpc'', Endpoint = Inl (Failure ''no listener'')\<rparr>]]"

definition app0 :: app where
  "app0 = New (Inr ''id-1'') os0"

definition app1 :: app where
  "app1 = New (Inr ''id-2'') [Opt_ctx (Some DeadlineExceeded)]"

definition app2 :: app where
  "app2 = New (Inr ''id-3'')
     [Opt_servers [\<lparr>srv_name = ''http'', Endpoint = Inr ''http://h:80''\<rparr>,
                   \<lparr>srv_name = ''grpc'', Endpoint = Inr ''grpc://h:90''\<rparr>]]"

text \<open>
  Example runs. In \<open>trace_signal\<close> a signal arrives, the watcher calls \<open>Stop\<close> and then
  returns the cancellation error before the first server's \<open>Stop()\<close> fails. In
  \<open>trace_register\<close> the first server's \<open>Start()\<close> fails while \<open>Register\<close> is running,
  and \<open>Register\<close> fails. \<open>trace_failfast\<close> is how a run goes on after a server has failed.
  In \<open>state_signal\<close> the watcher waits; \<open>signals3\<close> has four signals, one of them dropped
  because the channel is full, and one \<open>Stop\<close> whose \<open>Deregister\<close> fails.
  In \<open>trace_dropped\<close> three signals arrive: SIGINT while SIGTERM is still in the channel,
  and SIGQUIT just before the watcher leaves through \<open>ctx.Done()\<close>.
\<close>

definition trace_signal :: "event list" where
  "trace_signal =
     [Notify, SignalArrive SIGTERM, WatcherRecv None, WatcherDone, StopCall 0, StopCall 1,
      StopRet 0 (Some (Failure ''stop failed'')), StopRet 1 None,
      StartRet 0 None, StartRet 1 None, Wait]"

definition trace_register :: "event list" where
  "trace_register =
     [StartRet 0 (Some (Failure ''bind'')), RegisterRet (Some (Failure ''registry down''))]"

definition trace_failfast :: "event list" where
  "trace_failfast =
     [StopCall 0, StopCall 1, StopRet 0 None, StopRet 1 (Some (Failure ''late'')),
      StartRet 0 None, WatcherDone, Wait]"

definition trace_dropped :: "event list" where
  "trace_dropped =
     [Notify, SignalArrive SIGTERM, SignalArrive SIGINT, WatcherRecv None,
      SignalArrive SIGQUIT, WatcherDone, StopCall 0, StopCall 1, StopRet 0 None,
      StopRet 1 None, StartRet 0 None, StartRet 1 None, Wait]"

definition state_signal :: run_state where
  "state_signal = exec (Run_spawn app0) [RegisterRet None, Notify]"

definition signals3 :: "event list" where
  "signals3 =
     [SignalArrive SIGTERM, WatcherRecv (Some (Failure ''registry down'')),
      SignalArrive SIGINT, SignalArrive SIGTERM, WatcherRecv None,
      SignalArrive SIGTERM, WatcherRecv None]"

text \<open>
  Invariants of a run: a stop-task that has left \<open>ctx.Done()\<close> has its server in
  \<open>stop_calls\<close>; once \<open>Run\<close> has returned from the wait, every task has returned and the
  result is the filtered error of the group.
\<close>

definition stops_logged :: "run_state \<Rightarrow> bool" where
  "stops_logged s =
     (\<forall>i<length (stop_tasks s). stop_tasks s ! i \<noteq> Blocked \<longrightarrow> i \<in> set (stop_calls s))"

definition wait_inv :: "run_state \<Rightarrow> bool" where
  "wait_inv s =
     (case pc s of
        RetWait r \<Rightarrow>
          all_finished s \<and>
          r = (case gerr s of None \<Rightarrow> None
               | Some err \<Rightarrow> if \<not> errors_Is err Canceled then Some err else None)
      | _ \<Rightarrow> True)"

section \<open>Basic facts\<close>

lemma cancel_ctx_simps [simp]:
  "cancel_ctx e None = Some e" "cancel_ctx e (Some e') = Some e'"
  by (simp_all add: cancel_ctx_def)

lemma cancel_ctx_not_None [simp]: "cancel_ctx e c \<noteq> None"
  by (cases c) simp_all

lemma cancel_ctx_Some [simp]: "\<exists>y. cancel_ctx e c = Some y"
  by (cases c) simp_all

lemma New_cancel: "cancel (New uuid os)"
  by (simp add: New_def Let_def)

section \<open>Stop\<close>

text \<open>
  C1. An App built by \<open>New\<close> has its \<open>cancel\<close>. With a registry whose \<open>Deregister\<close>
  fails, \<open>Stop\<close> returns that failure and the App, its context included, is as before:
  \<open>cancel\<close> was not called. With no registry, or when \<open>Deregister\<close> succeeds, \<open>Stop\<close>
  returns \<open>nil\<close> and \<open>a.ctx\<close> is done afterwards.
\<close>

theorem Stop_deregister:
  assumes "cancel a"
  shows "(o_registry (opts a) \<noteq> None \<and> d = Some err \<longrightarrow> Stop a d = (Some err, a)) \<and>
         (o_registry (opts a) = None \<or> d = None \<longrightarrow>
           fst (Stop a d) = None \<and> ctx (snd (Stop a d)) \<noteq> None \<and>
           snd (Stop a d) = a\<lparr>ctx := cancel_ctx Canceled (ctx a)\<rparr>)"
  using assms by (auto simp: Stop_def split: option.splits)

theorem Stop_deregister_witness:
  "cancel app0 \<and> o_registry (opts app0) \<noteq> None \<and>
   Stop app0 (Some (Failure ''down'')) = (Some (Failure ''down''), app0) \<and>
   fst (Stop app0 None) = None \<and> ctx (snd (Stop app0 None)) = Some Canceled"
  using Stop_deregister [of app0 "Some (Failure ''down'')" "Failure ''down''"]
        Stop_deregister [of app0 None]
  by (simp add: app0_def os0_def New_def New_options_def default_options_def Let_def)

lemma Stop_done:
  "ctx a = Some e \<Longrightarrow> o_registry (opts a) = None \<or> d = None \<Longrightarrow> Stop a d = (None, a)"
  by (auto simp: Stop_def)

text \<open>
  C5. On an App whose context is done, any number of calls of \<open>Stop\<close> (with no registry,
  or with every \<open>Deregister\<close> succeeding) each return \<open>nil\<close> and leave the App, and so
  its context and the reason it is done for, as it was.
\<close>

theorem Stop_idempotent:
  assumes "ctx a = Some e"
    and "o_registry (opts a) = None \<or> list_all (\<lambda>d. d = None) ds"
  shows "Stop_repeat a ds = (replicate (length ds) None, a)"
  using assms by (induction ds) (auto simp: Stop_done)

theorem Stop_idempotent_witness:
  "ctx app1 = Some DeadlineExceeded \<and> o_registry (opts app1) = None \<and>
   Stop_repeat app1 [None, None, None] = ([None, None, None], app1)"
  using Stop_idempotent [of app1 DeadlineExceeded "[None, None, None]"]
  by (simp add: app1_def New_def New_options_def default_options_def Let_def)

section \<open>serviceInstance and New\<close>

lemma query_servers_eq:
  "query_servers ss (eps, asked) = (eps @ successful_endpoints ss, asked @ ss)"
  by (induction ss arbitrary: eps asked) (auto simp: successful_endpoints_def split: sum.splits)

text \<open>
  C3. When the configured endpoint list is empty, the instance built by \<open>New\<close> has the
  successful \<open>Endpoint()\<close> results of the servers, in the order of the server list, and
  every server is asked exactly once. When the list is not empty it is used as it is and
  no server is asked.
\<close>

theorem serviceInstance_endpoints:
  "(o_endpoints (New_options uuid os) = [] \<longrightarrow>
      Endpoints (inst (New uuid os)) = successful_endpoints (o_servers (New_options uuid os)) \<and>
      snd (serviceInstance_calls (New_options uuid os)) = o_servers (New_options uuid os)) \<and>
   (o_endpoints (New_options uuid os) \<noteq> [] \<longrightarrow>
      Endpoints (inst (New uuid os)) = o_endpoints (New_options uuid os) \<and>
      snd (serviceInstance_calls (New_options uuid os)) = [])"
  by (simp add: New_def Let_def serviceInstance_def serviceInstance_calls_def query_servers_eq)

theorem serviceInstance_endpoints_witness:
  "o_endpoints (New_options (Inr ''id-1'') os0) = [] \<and>
   Endpoints (inst (New (Inr ''id-1'') os0)) = [''http://h:80''] \<and>
   snd (serviceInstance_calls (New_options (Inr ''id-1'') os0)) =
     [\<lparr>srv_name = ''http'', Endpoint = Inr ''http://h:80''\<rparr>,
      \<lparr>srv_name = ''grpc'', Endpoint = Inl (Failure ''no listener'')\<rparr>] \<and>
   o_endpoints (New_options (Inr ''id-1'') (os0 @ [Opt_endpoints [''tcp://x:1'']])) \<noteq> [] \<and>
   Endpoints (inst (New (Inr ''id-1'') (os0 @ [Opt_endpoints [''tcp://x:1'']]))) = [''tcp://x:1''] \<and>
   snd (serviceInstance_calls (New_options (Inr ''id-1'') (os0 @ [Opt_endpoints [''tcp://x:1'']]))) = []"
  using serviceInstance_endpoints [of "Inr ''id-1''" os0]
        serviceInstance_endpoints [of "Inr ''id-1''" "os0 @ [Opt_endpoints [''tcp://x:1'']]"]
  by (simp add: os0_def New_options_def default_options_def successful_endpoints_def)

lemma foldl_apply_sigs:
  "list_all (\<lambda>x. \<not> is_Opt_sigs x) os \<Longrightarrow> o_sigs (foldl apply_option o' os) = o_sigs o'"
proof (induction os arbitrary: o')
  case Nil
  then show ?case by simp
next
  case (Cons x os)
  then show ?case by (cases x) simp_all
qed

lemma foldl_apply_id:
  "list_all (\<lambda>x. \<not> is_Opt_id x) os \<Longrightarrow> o_id (foldl apply_option o' os) = o_id o'"
proof (induction os arbitrary: o')
  case Nil
  then show ?case by simp
next
  case (Cons x os)
  then show ?case by (cases x) simp_all
qed

text \<open>
  C10. When \<open>uuid.NewUUID()\<close> fails and no option sets the id, the id of the options and
  of the instance is the empty string. \<open>New\<close> returns an App in every case, and the App does
  not depend on which error the generator returned.
\<close>

theorem New_uuid_failure:
  assumes "list_all (\<lambda>x. \<not> is_Opt_id x) os"
  shows "ID (inst (New (Inl err) os)) = [] \<and> o_id (opts (New (Inl err) os)) = [] \<and>
         New (Inl err) os = New (Inl err') os"
  using assms
  by (simp add: New_def Let_def New_options_def foldl_apply_id default_options_def
      serviceInstance_def serviceInstance_calls_def split: prod.splits)

theorem New_uuid_failure_witness:
  "list_all (\<lambda>x. \<not> is_Opt_id x) os0 \<and>
   ID (inst (New (Inl (Failure ''no clock'')) os0)) = [] \<and>
   o_id (opts (New (Inl (Failure ''no clock'')) os0)) = [] \<and>
   New (Inl (Failure ''no clock'')) os0 = New (Inl Canceled) os0"
proof -
  have h: "list_all (\<lambda>x. \<not> is_Opt_id x) os0"
    by (simp add: os0_def)
  from h New_uuid_failure [OF h, of "Failure ''no clock''" Canceled] show ?thesis
    by blast
qed

section \<open>Facts about runs\<close>

lemmas run_defs = Run_register_def Run_notify_def Run_wait_def group_done_def run_Stop_def
  propagate_def Stop_def

lemma exec_Nil [simp]: "exec s [] = s"
  by (simp add: exec_def)

lemma exec_Cons [simp]: "exec s (ev # evs) = exec (step s ev) evs"
  by (simp add: exec_def)

lemma exec_append: "exec s (evs @ evs') = exec (exec s evs) evs'"
  by (simp add: exec_def)

lemma step_inst: "inst (app (step s ev)) = inst (app s)"
  by (cases ev) (auto simp: run_defs split: option.splits)

lemma step_opts: "opts (app (step s ev)) = opts (app s)"
  by (cases ev) (auto simp: run_defs split: option.splits)

lemma exec_inst: "inst (app (exec s evs)) = inst (app s)"
  by (induction evs arbitrary: s) (simp_all add: step_inst)

lemma exec_opts: "opts (app (exec s evs)) = opts (app s)"
  by (induction evs arbitrary: s) (simp_all add: step_opts)

lemma Stop_inst: "inst (snd (Stop a d)) = inst a"
  by (auto simp: Stop_def split: option.splits)

lemma run_Stop_inst: "inst (app (snd (run_Stop s d))) = inst (app s)"
  by (auto simp: run_defs split: option.splits)

lemma spawn_servers_eq:
  "spawn_servers ss (stops, starts) =
     (stops @ replicate (length ss) Blocked, starts @ replicate (length ss) Running)"
  by (induction ss arbitrary: stops starts) (simp_all add: replicate_app_Cons_same)

lemma Run_spawn_fields:
  "app (Run_spawn a) = a"
  "gctx (Run_spawn a) = ctx a"
  "gerr (Run_spawn a) = None"
  "stop_tasks (Run_spawn a) = replicate (length (o_servers (opts a))) Blocked"
  "start_tasks (Run_spawn a) = replicate (length (o_servers (opts a))) Running"
  "stop_calls (Run_spawn a) = []"
  "app_stops (Run_spawn a) = 0"
  "watcher (Run_spawn a) = None"
  "notified (Run_spawn a) = None"
  "pc (Run_spawn a) = (if o_registry (opts a) \<noteq> None then PcRegister else PcNotify)"
  by (simp_all add: Run_spawn_def spawn_servers_eq)

lemma step_notified:
  "notified s = None \<or> notified s = Some (o_sigs (opts (app s))) \<Longrightarrow>
   notified (step s ev) = None \<or> notified (step s ev) = Some (o_sigs (opts (app (step s ev))))"
  by (cases ev) (auto simp: run_defs split: option.splits)

lemma exec_notified:
  "notified s = None \<or> notified s = Some (o_sigs (opts (app s))) \<Longrightarrow>
   notified (exec s evs) = None \<or> notified (exec s evs) = Some (o_sigs (opts (app s)))"
proof (induction evs arbitrary: s)
  case Nil
  then show ?case by simp
next
  case (Cons ev evs)
  from step_notified [OF Cons.prems] Cons.IH [of "step s ev"] show ?case
    by (simp add: step_opts)
qed

text \<open>
  C9. When no option sets the signals, the options of the App hold SIGTERM, SIGQUIT and
  SIGINT; at every moment of a run, the signals given to \<open>signal.Notify\<close>, once it has
  been called, are these; and a signal is relayed to the watcher exactly when it is one
  of the three.
\<close>

theorem New_default_signals:
  assumes "list_all (\<lambda>x. \<not> is_Opt_sigs x) os"
  shows "o_sigs (opts (New uuid os)) = [SIGTERM, SIGQUIT, SIGINT] \<and>
         (notified (exec (Run_spawn (New uuid os)) evs) = Some sgs \<longrightarrow>
            sgs = [SIGTERM, SIGQUIT, SIGINT]) \<and>
         (subscribed (o_sigs (opts (New uuid os))) sg \<longleftrightarrow> sg \<in> {SIGTERM, SIGQUIT, SIGINT})"
proof -
  have sigs: "o_sigs (opts (New uuid os)) = [SIGTERM, SIGQUIT, SIGINT]"
    using assms
    by (simp add: New_def Let_def New_options_def foldl_apply_sigs default_options_def
        split: sum.splits)
  have "notified (exec (Run_spawn (New uuid os)) evs) = None \<or>
        notified (exec (Run_spawn (New uuid os)) evs) =
          Some (o_sigs (opts (app (Run_spawn (New uuid os)))))"
    by (rule exec_notified) (simp add: Run_spawn_fields)
  with sigs have "notified (exec (Run_spawn (New uuid os)) evs) = Some sgs \<longrightarrow>
      sgs = [SIGTERM, SIGQUIT, SIGINT]"
    by (auto simp: Run_spawn_fields)
  moreover have "subscribed (o_sigs (opts (New uuid os))) sg \<longleftrightarrow> sg \<in> {SIGTERM, SIGQUIT, SIGINT}"
    by (auto simp: sigs subscribed_def)
  ultimately show ?thesis
    using sigs by blast
qed

theorem New_default_signals_witness:
  "list_all (\<lambda>x. \<not> is_Opt_sigs x) os0 \<and>
   o_sigs (opts (New (Inr ''id-1'') os0)) = [SIGTERM, SIGQUIT, SIGINT] \<and>
   notified (exec (Run_spawn (New (Inr ''id-1'') os0)) [RegisterRet None, Notify]) =
     Some [SIGTERM, SIGQUIT, SIGINT] \<and>
   subscribed (o_sigs (opts (New (Inr ''id-1'') os0))) SIGINT \<and>
   \<not> subscribed (o_sigs (opts (New (Inr ''id-1'') os0))) SIGHUP"
proof -
  have h: "list_all (\<lambda>x. \<not> is_Opt_sigs x) os0"
    by (simp add: os0_def)
  have n: "notified (exec (Run_spawn (New (Inr ''id-1'') os0)) [RegisterRet None, Notify]) =
     Some [SIGTERM, SIGQUIT, SIGINT]"
    by code_simp
  have m1: "SIGINT \<in> {SIGTERM, SIGQUIT, SIGINT}" and m2: "SIGHUP \<notin> {SIGTERM, SIGQUIT, SIGINT}"
    by simp_all
  note t1 = New_default_signals [OF h, of "Inr ''id-1''" "[RegisterRet None, Notify]"
      "[SIGTERM, SIGQUIT, SIGINT]" SIGINT]
  note t2 = New_default_signals [OF h, of "Inr ''id-1''" "[RegisterRet None, Notify]"
      "[SIGTERM, SIGQUIT, SIGINT]" SIGHUP]
  from t1 have a: "o_sigs (opts (New (Inr ''id-1'') os0)) = [SIGTERM, SIGQUIT, SIGINT]"
    by blast
  from t1 m1 have b: "subscribed (o_sigs (opts (New (Inr ''id-1'') os0))) SIGINT"
    by blast
  from t2 m2 have c: "\<not> subscribed (o_sigs (opts (New (Inr ''id-1'') os0))) SIGHUP"
    by blast
  from h n a b c show ?thesis
    by blast
qed

section \<open>Run\<close>

text \<open>
  C7. \<open>Run\<close> and \<open>Stop\<close> never change the instance: it is the same after the first
  lines of \<open>Run\<close>, after any sequence of transitions of a run, and after \<open>Stop\<close>,
  called alone or during a run.
\<close>

theorem instance_never_mutated:
  "inst (app (Run_spawn a)) = inst a \<and> inst (app (exec (Run_spawn a) evs)) = inst a \<and>
   inst (snd (Stop a d)) = inst a \<and> inst (app (snd (run_Stop s d))) = inst (app s)"
  by (simp add: exec_inst Run_spawn_fields Stop_inst run_Stop_inst)

theorem instance_never_mutated_witness:
  "inst (app (exec (Run_spawn app2) trace_signal)) = inst app2 \<and>
   inst (snd (Stop app2 None)) = inst app2 \<and>
   Endpoints (inst app2) = [''http://h:80'', ''grpc://h:90'']"
proof -
  have "Endpoints (inst app2) = [''http://h:80'', ''grpc://h:90'']"
    by code_simp
  with instance_never_mutated [of app2 trace_signal None] show ?thesis
    by blast
qed

text \<open>
  C2. With a registry, \<open>Run\<close> is inside \<open>Register\<close> after its first lines. When
  \<open>Register\<close> returns an error, \<open>Run\<close> returns that error in the same step, and the
  step changes nothing else: \<open>a.ctx\<close>, the group's context and the tasks are as they
  were. The first lines of \<open>Run\<close> do not cancel \<open>a.ctx\<close> either.
\<close>

theorem Run_register_failure:
  assumes "o_registry (opts a) \<noteq> None"
    and "s = exec (Run_spawn a) evs"
    and "pc s = PcRegister"
  shows "step s (RegisterRet (Some err)) = s\<lparr>pc := RetRegister err\<rparr> \<and>
         returned (step s (RegisterRet (Some err))) = Some (Some err) \<and>
         ctx (app (step s (RegisterRet (Some err)))) = ctx (app s) \<and>
         gctx (step s (RegisterRet (Some err))) = gctx s \<and>
         exec (Run_spawn a) [RegisterRet (Some err)] = (Run_spawn a)\<lparr>pc := RetRegister err\<rparr> \<and>
         ctx (app (Run_spawn a)) = ctx a \<and> gctx (Run_spawn a) = ctx a"
  using assms(1,3) by (simp add: Run_spawn_fields Run_register_def returned_def)

theorem Run_register_failure_witness:
  "o_registry (opts app0) \<noteq> None \<and>
   pc (exec (Run_spawn app0) [StartRet 0 (Some (Failure ''bind''))]) = PcRegister \<and>
   returned (step (exec (Run_spawn app0) [StartRet 0 (Some (Failure ''bind''))])
               (RegisterRet (Some (Failure ''registry down'')))) =
     Some (Some (Failure ''registry down'')) \<and>
   ctx (app (step (exec (Run_spawn app0) [StartRet 0 (Some (Failure ''bind''))])
               (RegisterRet (Some (Failure ''registry down''))))) = None"
proof -
  have h1: "o_registry (opts app0) \<noteq> None"
    by code_simp
  have h3: "pc (exec (Run_spawn app0) [StartRet 0 (Some (Failure ''bind''))]) = PcRegister"
    by code_simp
  have c: "ctx (app (exec (Run_spawn app0) [StartRet 0 (Some (Failure ''bind''))])) = None"
    by code_simp
  from Run_register_failure [OF h1 refl h3, of "Failure ''registry down''"] h1 h3 c
  show ?thesis
    by metis
qed

text \<open>
  C4. When \<open>Run\<close> is at the wait and every task has returned, \<open>Run\<close> returns \<open>nil\<close>
  if the group's error is \<open>nil\<close> or \<open>context.Canceled\<close>; an error that \<open>Run\<close> returns
  is the group's error, and it is not \<open>context.Canceled\<close> nor a wrapper of it.
\<close>

theorem Run_wait_result:
  assumes "pc s = PcWait" and "all_finished s"
  shows "(gerr s = None \<or> gerr s = Some Canceled \<longrightarrow> returned (step s Wait) = Some None) \<and>
         (\<forall>e. returned (step s Wait) = Some (Some e) \<longrightarrow>
               gerr s = Some e \<and> e \<noteq> Canceled \<and> \<not> errors_Is e Canceled)"
  using assms by (auto simp: returned_def Run_wait_def split: option.splits if_splits)

theorem Run_wait_result_witness:
  "pc (exec (Run_spawn app2) (butlast trace_signal)) = PcWait \<and>
   all_finished (exec (Run_spawn app2) (butlast trace_signal)) \<and>
   gerr (exec (Run_spawn app2) (butlast trace_signal)) = Some Canceled \<and>
   returned (step (exec (Run_spawn app2) (butlast trace_signal)) Wait) = Some None"
proof -
  have h1: "pc (exec (Run_spawn app2) (butlast trace_signal)) = PcWait"
    by code_simp
  have h2: "all_finished (exec (Run_spawn app2) (butlast trace_signal))"
    by code_simp
  have h3: "gerr (exec (Run_spawn app2) (butlast trace_signal)) = Some Canceled"
    by code_simp
  from Run_wait_result [OF h1 h2] h1 h2 h3 show ?thesis
    by blast
qed


lemma SignalArrive_full: "sigchan s \<noteq> None \<Longrightarrow> step s (SignalArrive sg) = s"
  by (simp split: option.splits)

lemma step_watcher:
  "watcher s = Some Blocked \<Longrightarrow> WatcherDone \<noteq> ev \<Longrightarrow> watcher (step s ev) = Some Blocked"
  by (cases ev) (auto simp: run_defs split: option.splits)

lemma exec_watcher:
  "watcher s = Some Blocked \<Longrightarrow> WatcherDone \<notin> set evs \<Longrightarrow> watcher (exec s evs) = Some Blocked"
  by (induction evs arbitrary: s) (simp_all add: step_watcher)

text \<open>
  C8, as amended. While the watcher waits: a subscribed signal that finds the channel
  empty is put there, and a signal that finds it full changes nothing; every signal the
  \<open>select\<close> takes from the channel is one more call of \<open>Stop\<close>, whose result is dropped
  (the group's error is as before), and the watcher waits again; no sequence of transitions
  other than leaving through \<open>ctx.Done()\<close> ends the loop, and that is not possible while
  the group's context is live; when the context is done for reason \<open>e\<close>, the watcher
  returns \<open>e\<close> to the group, and after that no signal is taken from the channel.
\<close>

theorem Signal_Watcher_loop:
  assumes "watcher s = Some Blocked"
  shows "(notified s = Some sgs \<and> subscribed sgs sg \<and> sigchan s = None \<longrightarrow>
            sigchan (step s (SignalArrive sg)) = Some sg) \<and>
         (sigchan s \<noteq> None \<longrightarrow> step s (SignalArrive sg) = s) \<and>
         (sigchan s = Some sg \<longrightarrow>
            step s (WatcherRecv d) = snd (run_Stop (s\<lparr>sigchan := None\<rparr>) d) \<and>
            app (step s (WatcherRecv d)) = snd (Stop (app s) d) \<and>
            app_stops (step s (WatcherRecv d)) = Suc (app_stops s) \<and>
            gerr (step s (WatcherRecv d)) = gerr s \<and>
            watcher (step s (WatcherRecv d)) = Some Blocked) \<and>
         (WatcherDone \<notin> set evs \<longrightarrow> watcher (exec s evs) = Some Blocked) \<and>
         (gctx s = None \<longrightarrow> step s WatcherDone = s) \<and>
         (gctx s = Some e \<longrightarrow>
            watcher (step s WatcherDone) = Some (Finished (Some e)) \<and>
            gerr (step s WatcherDone) = (case gerr s of None \<Rightarrow> Some e | Some e' \<Rightarrow> Some e') \<and>
            step (step s WatcherDone) (WatcherRecv d) = step s WatcherDone)"
  using assms
  by (auto simp: exec_watcher run_defs split: option.splits)

theorem Signal_Watcher_loop_witness:
  "watcher state_signal = Some Blocked \<and>
   notified state_signal = Some [SIGTERM, SIGQUIT, SIGINT] \<and>
   subscribed [SIGTERM, SIGQUIT, SIGINT] SIGTERM \<and> sigchan state_signal = None \<and>
   sigchan (step state_signal (SignalArrive SIGTERM)) = Some SIGTERM \<and>
   step (step state_signal (SignalArrive SIGTERM)) (SignalArrive SIGTERM) =
     step state_signal (SignalArrive SIGTERM) \<and>
   app_stops (step (step state_signal (SignalArrive SIGTERM))
              (WatcherRecv (Some (Failure ''registry down'')))) = Suc 0 \<and>
   watcher (step (step state_signal (SignalArrive SIGTERM))
              (WatcherRecv (Some (Failure ''registry down'')))) = Some Blocked \<and>
   gerr (step (step state_signal (SignalArrive SIGTERM))
              (WatcherRecv (Some (Failure ''registry down'')))) = None \<and>
   WatcherDone \<notin> set signals3 \<and>
   watcher (exec state_signal signals3) = Some Blocked \<and>
   gctx state_signal = None \<and> step state_signal WatcherDone = state_signal \<and>
   gctx (exec state_signal signals3) = Some Canceled \<and>
   watcher (step (exec state_signal signals3) WatcherDone) = Some (Finished (Some Canceled)) \<and>
   gerr (step (exec state_signal signals3) WatcherDone) = Some Canceled"
proof -
  have w: "watcher state_signal = Some Blocked"
    by code_simp
  have n: "notified state_signal = Some [SIGTERM, SIGQUIT, SIGINT]"
    by code_simp
  have sub: "subscribed [SIGTERM, SIGQUIT, SIGINT] SIGTERM"
    by code_simp
  have ch: "sigchan state_signal = None"
    by code_simp
  have g: "gctx state_signal = None"
    by code_simp
  have nd: "WatcherDone \<notin> set signals3"
    by code_simp
  have w1: "watcher (step state_signal (SignalArrive SIGTERM)) = Some Blocked"
    by code_simp
  have ch1: "sigchan (step state_signal (SignalArrive SIGTERM)) = Some SIGTERM"
    by code_simp
  have ge1: "gerr (step state_signal (SignalArrive SIGTERM)) = None"
    by code_simp
  have st1: "app_stops (step state_signal (SignalArrive SIGTERM)) = 0"
    by code_simp
  have g3: "gctx (exec state_signal signals3) = Some Canceled"
    by code_simp
  have ge3: "gerr (exec state_signal signals3) = None"
    by code_simp
  note a = Signal_Watcher_loop [OF w, of "[SIGTERM, SIGQUIT, SIGINT]" SIGTERM None signals3 Canceled]
  from a nd have w3: "watcher (exec state_signal signals3) = Some Blocked"
    by blast
  note b = Signal_Watcher_loop [OF w1, of "[]" SIGTERM "Some (Failure ''registry down'')" "[]" Canceled]
  note c = Signal_Watcher_loop [OF w3, of "[]" SIGTERM None "[]" Canceled]
  from c g3 ge3 have d: "watcher (step (exec state_signal signals3) WatcherDone) = Some (Finished (Some Canceled))"
     "gerr (step (exec state_signal signals3) WatcherDone) = Some Canceled"
    by (simp_all del: step.simps)
  from b ch1 have full: "step (step state_signal (SignalArrive SIGTERM)) (SignalArrive SIGTERM) =
      step state_signal (SignalArrive SIGTERM)"
    by blast
  from b ch1 have "app_stops (step (step state_signal (SignalArrive SIGTERM))
      (WatcherRecv (Some (Failure ''registry down'')))) =
      Suc (app_stops (step state_signal (SignalArrive SIGTERM)))"
    by blast
  with st1 have cnt: "app_stops (step (step state_signal (SignalArrive SIGTERM))
      (WatcherRecv (Some (Failure ''registry down'')))) = Suc 0"
    by (simp only:)
  from a b w n sub ch g nd ch1 ge1 w3 g3 d full cnt show ?thesis
    by metis
qed

text \<open>
  The claim C8 as it is written says that every arrival of a configured signal calls
  \<open>Stop\<close>. In this run of an App with the default signals and no registry, SIGTERM,
  SIGINT and SIGQUIT arrive while the watcher is subscribed: SIGINT finds the channel full
  and leaves the state as it was, SIGQUIT is still in the channel when the watcher has
  returned and \<open>Run\<close> has returned \<open>nil\<close>, and \<open>Stop\<close> has been called once.
\<close>

theorem Signal_Watcher_loop_counterexample:
  "notified (exec (Run_spawn app2) [Notify]) = Some [SIGTERM, SIGQUIT, SIGINT] \<and>
   subscribed [SIGTERM, SIGQUIT, SIGINT] SIGTERM \<and>
   subscribed [SIGTERM, SIGQUIT, SIGINT] SIGINT \<and>
   subscribed [SIGTERM, SIGQUIT, SIGINT] SIGQUIT \<and>
   watcher (exec (Run_spawn app2) [Notify, SignalArrive SIGTERM]) = Some Blocked \<and>
   step (exec (Run_spawn app2) [Notify, SignalArrive SIGTERM]) (SignalArrive SIGINT) =
     exec (Run_spawn app2) [Notify, SignalArrive SIGTERM] \<and>
   app_stops (exec (Run_spawn app2) trace_dropped) = Suc 0 \<and>
   sigchan (exec (Run_spawn app2) trace_dropped) = Some SIGQUIT \<and>
   watcher (exec (Run_spawn app2) trace_dropped) = Some (Finished (Some Canceled)) \<and>
   returned (exec (Run_spawn app2) trace_dropped) = Some None"
proof -
  have full: "sigchan (exec (Run_spawn app2) [Notify, SignalArrive SIGTERM]) \<noteq> None"
    by code_simp
  have "notified (exec (Run_spawn app2) [Notify]) = Some [SIGTERM, SIGQUIT, SIGINT]"
    and "subscribed [SIGTERM, SIGQUIT, SIGINT] SIGTERM"
    and "subscribed [SIGTERM, SIGQUIT, SIGINT] SIGINT"
    and "subscribed [SIGTERM, SIGQUIT, SIGINT] SIGQUIT"
    and "watcher (exec (Run_spawn app2) [Notify, SignalArrive SIGTERM]) = Some Blocked"
    and "app_stops (exec (Run_spawn app2) trace_dropped) = Suc 0"
    and "sigchan (exec (Run_spawn app2) trace_dropped) = Some SIGQUIT"
    and "watcher (exec (Run_spawn app2) trace_dropped) = Some (Finished (Some Canceled))"
    and "returned (exec (Run_spawn app2) trace_dropped) = Some None"
    by code_simp+
  with SignalArrive_full [OF full, of SIGINT] show ?thesis
    by blast
qed


lemma step_gerr: "gerr s = Some e \<Longrightarrow> gerr (step s ev) = Some e"
  by (cases ev) (auto simp: run_defs split: option.splits)

lemma exec_gerr: "gerr s = Some e \<Longrightarrow> gerr (exec s evs) = Some e"
  by (induction evs arbitrary: s) (simp_all add: step_gerr)

lemma step_length_stop: "length (stop_tasks (step s ev)) = length (stop_tasks s)"
  by (cases ev) (auto simp: run_defs split: option.splits)

lemma exec_length_stop: "length (stop_tasks (exec s evs)) = length (stop_tasks s)"
  by (induction evs arbitrary: s) (simp_all add: step_length_stop)

lemma step_stops_logged: "stops_logged s \<Longrightarrow> stops_logged (step s ev)"
  by (cases ev) (auto simp: stops_logged_def run_defs nth_list_update split: option.splits)

lemma exec_stops_logged: "stops_logged s \<Longrightarrow> stops_logged (exec s evs)"
  by (induction evs arbitrary: s) (simp_all add: step_stops_logged)

lemma Run_spawn_stops_logged: "stops_logged (Run_spawn a)"
  by (simp add: stops_logged_def Run_spawn_fields)

lemma finished_nth:
  "list_all is_Finished ts \<Longrightarrow> i < length ts \<Longrightarrow> ts ! i \<noteq> Running \<and> ts ! i \<noteq> Blocked"
  by (auto simp: list_all_length)

lemma returned_stable:
  assumes "pc s = RetWait r" and "all_finished s"
  shows "pc (step s ev) = RetWait r \<and> gerr (step s ev) = gerr s \<and>
         stop_tasks (step s ev) = stop_tasks s \<and> start_tasks (step s ev) = start_tasks s \<and>
         watcher (step s ev) = watcher s"
proof (cases ev)
  case (StopRet i r')
  with assms show ?thesis
    by (auto simp: all_finished_def dest: finished_nth)
next
  case (StartRet i r')
  with assms show ?thesis
    by (auto simp: all_finished_def dest: finished_nth)
next
  case (StopCall i)
  with assms show ?thesis
    by (auto simp: all_finished_def dest: finished_nth)
next
  case WatcherDone
  with assms show ?thesis
    by (auto simp: all_finished_def split: option.splits)
next
  case (SignalArrive sg)
  with assms show ?thesis
    by (simp split: option.splits)
next
  case (WatcherRecv d)
  with assms show ?thesis
    by (auto simp: all_finished_def split: option.splits)
next
  case (CallStop d)
  with assms show ?thesis
    by (simp add: run_Stop_def propagate_def split: prod.splits option.splits)
next
  case (ParentDone e)
  with assms show ?thesis
    by (simp add: propagate_def split: option.splits)
qed (use assms in simp_all)

lemma wait_entered:
  assumes "pc (step s ev) = RetWait r" and "\<forall>r'. pc s \<noteq> RetWait r'"
  shows "all_finished s \<and> step s ev = Run_wait s"
proof (cases ev)
  case (RegisterRet x)
  with assms show ?thesis
    by (auto simp: Run_register_def split: if_splits option.splits)
next
  case Notify
  with assms show ?thesis
    by (auto simp: Run_notify_def split: if_splits)
next
  case Wait
  with assms show ?thesis
    by (auto split: if_splits)
next
  case (StopCall i)
  with assms show ?thesis
    by (auto split: if_splits)
next
  case (StopRet i x)
  with assms show ?thesis
    by (auto simp: group_done_def split: if_splits option.splits)
next
  case (StartRet i x)
  with assms show ?thesis
    by (auto simp: group_done_def split: if_splits option.splits)
next
  case (SignalArrive sg)
  with assms show ?thesis
    by (auto split: if_splits option.splits)
next
  case (WatcherRecv d)
  with assms show ?thesis
    by (auto simp: run_Stop_def propagate_def split: if_splits option.splits prod.splits)
next
  case WatcherDone
  with assms show ?thesis
    by (auto simp: group_done_def split: if_splits option.splits)
next
  case (CallStop d)
  with assms show ?thesis
    by (auto simp: run_Stop_def propagate_def split: if_splits option.splits prod.splits)
next
  case (ParentDone e)
  with assms show ?thesis
    by (auto simp: propagate_def split: if_splits option.splits)
qed

lemma Run_wait_inv: "all_finished s \<Longrightarrow> wait_inv (Run_wait s)"
  by (simp add: wait_inv_def Run_wait_def all_finished_def)

lemma step_wait_inv: "wait_inv s \<Longrightarrow> wait_inv (step s ev)"
proof (cases "\<exists>r. pc s = RetWait r")
  case True
  then obtain r where r: "pc s = RetWait r" ..
  assume "wait_inv s"
  with r have fin: "all_finished s"
    and res: "r = (case gerr s of None \<Rightarrow> None
               | Some err \<Rightarrow> if \<not> errors_Is err Canceled then Some err else None)"
    by (simp_all add: wait_inv_def)
  from returned_stable [OF r fin, of ev] fin res show ?thesis
    by (simp add: wait_inv_def all_finished_def del: step.simps)
next
  case False
  show ?thesis
  proof (cases "\<exists>r. pc (step s ev) = RetWait r")
    case True
    then obtain r where "pc (step s ev) = RetWait r" ..
    with False have "all_finished s \<and> step s ev = Run_wait s"
      by (simp add: wait_entered del: step.simps)
    then show ?thesis
      by (simp add: Run_wait_inv del: step.simps)
  next
    case False
    then show ?thesis
      by (cases "pc (step s ev)") (simp_all add: wait_inv_def del: step.simps)
  qed
qed

lemma exec_wait_inv: "wait_inv s \<Longrightarrow> wait_inv (exec s evs)"
  by (induction evs arbitrary: s) (simp_all add: step_wait_inv)

lemma Run_spawn_wait_inv: "wait_inv (Run_spawn a)"
  by (simp add: wait_inv_def Run_spawn_fields)

lemma all_finished_logged:
  assumes "stops_logged s" and "all_finished s" and "j < length (stop_tasks s)"
  shows "j \<in> set (stop_calls s)"
proof -
  from assms(2,3) have "stop_tasks s ! j \<noteq> Blocked"
    by (simp add: all_finished_def finished_nth)
  with assms(1,3) show ?thesis
    by (simp add: stops_logged_def)
qed

lemma failure_recorded:
  assumes "gerr s = None"
    and "(ev = StartRet i (Some E) \<and> i < length (start_tasks s) \<and> start_tasks s ! i = Running) \<or>
         (ev = StopRet i (Some E) \<and> i < length (stop_tasks s) \<and> stop_tasks s ! i = Running)"
  shows "gerr (step s ev) = Some E \<and> gctx (step s ev) \<noteq> None"
  using assms by (auto simp: group_done_def)

text \<open>
  C6, as amended. Let a server's \<open>Start()\<close> or \<open>Stop()\<close> return an error \<open>E\<close> that is not
  \<open>context.Canceled\<close> nor a wrapper of it, at a moment when no task of the group has
  returned an error yet. Then the group's context is done at once, and if \<open>Run\<close> later
  returns from its wait, the \<open>Stop()\<close> of every server has been called and \<open>Run\<close>
  returns \<open>E\<close>.
\<close>

theorem Run_fail_fast:
  assumes "s1 = exec (Run_spawn a) pre"
    and "gerr s1 = None"
    and "(ev = StartRet i (Some E) \<and> i < length (start_tasks s1) \<and> start_tasks s1 ! i = Running) \<or>
         (ev = StopRet i (Some E) \<and> i < length (stop_tasks s1) \<and> stop_tasks s1 ! i = Running)"
    and "\<not> errors_Is E Canceled"
    and "s2 = exec (step s1 ev) post"
    and "pc s2 = RetWait r"
  shows "gctx (step s1 ev) \<noteq> None \<and>
         (\<forall>j<length (o_servers (opts a)). j \<in> set (stop_calls s2)) \<and>
         r = Some E"
proof -
  have rec: "gerr (step s1 ev) = Some E" and fired: "gctx (step s1 ev) \<noteq> None"
    using failure_recorded [OF assms(2,3)] by simp_all
  have s2: "s2 = exec (Run_spawn a) (pre @ ev # post)"
    using assms(1,5) by (simp add: exec_append)
  have g2: "gerr s2 = Some E"
    using rec assms(5) by (simp add: exec_gerr)
  have inv: "wait_inv s2" and logged: "stops_logged s2"
    using s2 by (simp_all add: exec_wait_inv Run_spawn_wait_inv exec_stops_logged
        Run_spawn_stops_logged)
  from inv assms(6) g2 assms(4) have fin: "all_finished s2" and r: "r = Some E"
    by (simp_all add: wait_inv_def)
  have len: "length (stop_tasks s2) = length (o_servers (opts a))"
    using s2 by (simp add: exec_length_stop Run_spawn_fields)
  from logged fin len have "\<forall>j<length (o_servers (opts a)). j \<in> set (stop_calls s2)"
    by (simp add: all_finished_logged)
  with fired r show ?thesis by simp
qed

theorem Run_fail_fast_witness:
  "gerr (exec (Run_spawn app2) [Notify]) = None \<and>
   1 < length (start_tasks (exec (Run_spawn app2) [Notify])) \<and>
   start_tasks (exec (Run_spawn app2) [Notify]) ! 1 = Running \<and>
   \<not> errors_Is (Failure ''bind'') Canceled \<and>
   pc (exec (step (exec (Run_spawn app2) [Notify]) (StartRet 1 (Some (Failure ''bind''))))
         trace_failfast) = RetWait (Some (Failure ''bind'')) \<and>
   gctx (step (exec (Run_spawn app2) [Notify]) (StartRet 1 (Some (Failure ''bind'')))) \<noteq> None \<and>
   0 \<in> set (stop_calls (exec (step (exec (Run_spawn app2) [Notify])
                                  (StartRet 1 (Some (Failure ''bind'')))) trace_failfast)) \<and>
   1 \<in> set (stop_calls (exec (step (exec (Run_spawn app2) [Notify])
                                  (StartRet 1 (Some (Failure ''bind'')))) trace_failfast))"
proof -
  have h2: "gerr (exec (Run_spawn app2) [Notify]) = None"
    by code_simp
  have h3a: "1 < length (start_tasks (exec (Run_spawn app2) [Notify]))"
    by code_simp
  have h3b: "start_tasks (exec (Run_spawn app2) [Notify]) ! 1 = Running"
    by code_simp
  have h4: "\<not> errors_Is (Failure ''bind'') Canceled"
    by simp
  have h6: "pc (exec (step (exec (Run_spawn app2) [Notify]) (StartRet 1 (Some (Failure ''bind''))))
         trace_failfast) = RetWait (Some (Failure ''bind''))"
    by code_simp
  have len: "length (o_servers (opts app2)) = 2"
    by code_simp
  have h3: "(StartRet 1 (Some (Failure ''bind'')) = StartRet 1 (Some (Failure ''bind'')) \<and>
       1 < length (start_tasks (exec (Run_spawn app2) [Notify])) \<and>
       start_tasks (exec (Run_spawn app2) [Notify]) ! 1 = Running) \<or>
      (StartRet 1 (Some (Failure ''bind'')) = StopRet 1 (Some (Failure ''bind'')) \<and>
       1 < length (stop_tasks (exec (Run_spawn app2) [Notify])) \<and>
       stop_tasks (exec (Run_spawn app2) [Notify]) ! 1 = Running)"
    using h3a h3b by blast
  note t = Run_fail_fast [OF refl h2 h3 h4 refl h6]
  from t len have "0 \<in> set (stop_calls (exec (step (exec (Run_spawn app2) [Notify])
                                  (StartRet 1 (Some (Failure ''bind'')))) trace_failfast))"
    and "1 \<in> set (stop_calls (exec (step (exec (Run_spawn app2) [Notify])
                                  (StartRet 1 (Some (Failure ''bind'')))) trace_failfast))"
    by (simp_all del: step.simps)
  with t h2 h3a h3b h4 h6 show ?thesis
    by blast
qed

text \<open>
  The claim C6 as it is written fails in two ways. In the first run a signal makes the
  watcher call \<open>Stop\<close> and return \<open>context.Canceled\<close> to the group before the first
  server's \<open>Stop()\<close> fails: the failure is the only failure of a server, and \<open>Run\<close>
  returns \<open>nil\<close>. In the second run the first server's \<open>Start()\<close> fails and then
  \<open>Register\<close> fails: \<open>Run\<close> returns the error of \<open>Register\<close>, and no \<open>Stop()\<close> has been
  called.
\<close>

theorem Run_fail_fast_counterexample:
  "stop_tasks (exec (Run_spawn app2) trace_signal) =
     [Finished (Some (Failure ''stop failed'')), Finished None] \<and>
   start_tasks (exec (Run_spawn app2) trace_signal) = [Finished None, Finished None] \<and>
   \<not> errors_Is (Failure ''stop failed'') Canceled \<and>
   returned (exec (Run_spawn app2) trace_signal) = Some None \<and>
   start_tasks (exec (Run_spawn app0) trace_register) =
     [Finished (Some (Failure ''bind'')), Running] \<and>
   \<not> errors_Is (Failure ''bind'') Canceled \<and>
   returned (exec (Run_spawn app0) trace_register) = Some (Some (Failure ''registry down'')) \<and>
   stop_calls (exec (Run_spawn app0) trace_register) = []"
  by code_simp

end
